theory Spec2Isabelle
  imports Complex_Main
begin

section \<open>JavaScript values used by the dashboard\<close>

text \<open>
  The dashboard (\<^verbatim>\<open>static/dashboard.js\<close>) receives JSON messages. The fields it reads
  are scalars: \<^verbatim>\<open>undefined\<close> (the field is absent), \<^verbatim>\<open>null\<close>, booleans, numbers
  and strings. Numbers are modelled as mathematical integers: the model covers JSON numbers
  that are integers of magnitude below \<open>2 ^ 53\<close>, where the arithmetic of JavaScript's
  doubles is exact. A character of a string stands for one UTF-16 code unit.
\<close>

datatype jsval = JUndefined | JNull | JBool bool | JNum int | JStr string

text \<open>
  The result of \<^verbatim>\<open>parseInt\<close>, and every number the dashboard computes with, is
  either \<^verbatim>\<open>NaN\<close> or an integer.
\<close>

datatype jsnum = NaN | Finite int

datatype js_error = RangeError | TypeError

text \<open>Truthiness, as tested by \<^verbatim>\<open>||\<close>, \<^verbatim>\<open>&&\<close> and \<^verbatim>\<open>if\<close>.\<close>

fun truthy :: "jsval \<Rightarrow> bool" where
  "truthy JUndefined = False"
| "truthy JNull = False"
| "truthy (JBool b) = b"
| "truthy (JNum n) = (n \<noteq> 0)"
| "truthy (JStr s) = (s \<noteq> [])"

text \<open>\<^verbatim>\<open>a + b\<close> on numbers: \<^verbatim>\<open>NaN\<close> is absorbing.\<close>

fun js_add :: "jsnum \<Rightarrow> jsnum \<Rightarrow> jsnum" where
  "js_add (Finite a) (Finite b) = Finite (a + b)"
| "js_add _ _ = NaN"

text \<open>\<^verbatim>\<open>Math.max(a, b)\<close>: \<^verbatim>\<open>NaN\<close> if either argument is \<^verbatim>\<open>NaN\<close>.\<close>

fun Math_max :: "jsnum \<Rightarrow> jsnum \<Rightarrow> jsnum" where
  "Math_max (Finite a) (Finite b) = Finite (max a b)"
| "Math_max _ _ = NaN"

text \<open>
  The values \<open>i\<close> taken by \<^verbatim>\<open>for (let i = 0; i < count; i++)\<close>: none when
  \<^verbatim>\<open>count\<close> is \<^verbatim>\<open>NaN\<close> (every comparison with \<^verbatim>\<open>NaN\<close> is false) or not positive.
\<close>

fun loop_range :: "jsnum \<Rightarrow> int list" where
  "loop_range NaN = []"
| "loop_range (Finite c) = map int [0..<nat c]"

subsection \<open>Conversion to a string\<close>

text \<open>
  \<^verbatim>\<open>toString()\<close> of a \<^verbatim>\<open>BigInt\<close>, and of a number that is an integer: the decimal
  digits, after a minus sign when the value is negative.
\<close>

definition digit_char :: "nat \<Rightarrow> char" where
  "digit_char n = char_of (48 + n)"

function BigInt_toString :: "int \<Rightarrow> string" where
  "BigInt_toString n =
     (if n < 0 then CHR ''-'' # BigInt_toString (- n)
      else if n < 10 then [digit_char (nat n)]
      else BigInt_toString (n div 10) @ [digit_char (nat (n mod 10))])"
  by pat_completeness auto
termination
  by (relation "measure (\<lambda>n. if n < 0 then nat (- n) + 1 else nat n)") auto

declare BigInt_toString.simps [simp del]

text \<open>The abstract operation \<^verbatim>\<open>ToString\<close> that \<^verbatim>\<open>parseInt\<close> applies to its argument.\<close>

fun ToString :: "jsval \<Rightarrow> string" where
  "ToString JUndefined = ''undefined''"
| "ToString JNull = ''null''"
| "ToString (JBool b) = (if b then ''true'' else ''false'')"
| "ToString (JNum n) = BigInt_toString n"
| "ToString (JStr s) = s"

subsection \<open>\<^verbatim>\<open>parseInt\<close>\<close>

text \<open>
  \<^verbatim>\<open>parseInt(string, radix)\<close> after ECMAScript: leading white space is dropped, then an
  optional sign, then (for radix 16 or no radix) an optional \<^verbatim>\<open>0x\<close> prefix; the longest
  run of digits of the radix is read, and the result is \<^verbatim>\<open>NaN\<close> when that run is
  empty. Radix \<open>0\<close> stands for an absent radix.
\<close>

definition StrWhiteSpaceChar :: "char \<Rightarrow> bool" where
  "StrWhiteSpaceChar c \<longleftrightarrow> c \<in> {CHR 0x09, CHR 0x0A, CHR 0x0B, CHR 0x0C, CHR 0x0D, CHR 0x20}"

definition digit_value :: "char \<Rightarrow> nat option" where
  "digit_value c =
     (let n = (of_char c :: nat)
      in if 48 \<le> n \<and> n \<le> 57 then Some (n - 48)
         else if 65 \<le> n \<and> n \<le> 90 then Some (n - 55)
         else if 97 \<le> n \<and> n \<le> 122 then Some (n - 87)
         else None)"

definition radix_digit :: "nat \<Rightarrow> char \<Rightarrow> bool" where
  "radix_digit R c = (case digit_value c of Some v \<Rightarrow> v < R | None \<Rightarrow> False)"

definition digits_value :: "nat \<Rightarrow> string \<Rightarrow> nat" where
  "digits_value R Z =
     foldl (\<lambda>a c. case digit_value c of Some v \<Rightarrow> a * R + v | None \<Rightarrow> a) 0 Z"

definition parseInt_string :: "string \<Rightarrow> nat \<Rightarrow> jsnum" where
  "parseInt_string inputString radix =
     (let S = dropWhile StrWhiteSpaceChar inputString;
          sign = (if S \<noteq> [] \<and> hd S = CHR ''-'' then - 1 else (1::int));
          S1 = (if S \<noteq> [] \<and> (hd S = CHR ''+'' \<or> hd S = CHR ''-'') then tl S else S);
          stripPrefix = (radix = 0 \<or> radix = 16);
          R0 = (if radix = 0 then 10 else radix);
          hasPrefix = (stripPrefix \<and> (take 2 S1 = ''0x'' \<or> take 2 S1 = ''0X''));
          R = (if hasPrefix then 16 else R0);
          S2 = (if hasPrefix then drop 2 S1 else S1);
          Z = takeWhile (radix_digit R) S2
      in if radix \<noteq> 0 \<and> (radix < 2 \<or> 36 < radix) then NaN
         else if Z = [] then NaN
         else Finite (sign * int (digits_value R Z)))"

text \<open>\<^verbatim>\<open>parseInt(v)\<close> with no radix: \<open>v\<close> is converted to a string and read.\<close>

definition parseInt :: "jsval \<Rightarrow> jsnum" where
  "parseInt v = parseInt_string (ToString v) 0"

section \<open>The dashboard state\<close>

text \<open>
  An entry of \<^verbatim>\<open>digitStates\<close> is an object \<^verbatim>\<open>{state, value}\<close> with \<^verbatim>\<open>state\<close> one of
  \<^verbatim>\<open>'queue'\<close>, \<^verbatim>\<open>'inflight'\<close> (both with \<^verbatim>\<open>value: null\<close>) and \<^verbatim>\<open>'result'\<close>, whose
  value is the one-character string \<^verbatim>\<open>hex[i]\<close>. Such a string is truthy, so the test
  \<^verbatim>\<open>state.value\<close> in \<^verbatim>\<open>getAllHexDigits\<close> and \<^verbatim>\<open>renderPiDigits\<close> holds for every
  result.
\<close>

datatype digit_state = Queue | Inflight | Result char

datatype ready_state = CONNECTING | OPEN | CLOSING | CLOSED

record bbp_payload =
  payload_type :: jsval
  payload_start :: jsval
  payload_count :: jsval

text \<open>
  A job wrapper of the arrays \<^verbatim>\<open>queue_jobs\<close> and \<^verbatim>\<open>inflight_jobs\<close>; \<open>None\<close> is a
  payload that is absent (or not an object).
\<close>

record job =
  payload :: "bbp_payload option"

text \<open>The result payload; \<^verbatim>\<open>hex\<close> is a string when it is present.\<close>

record result_payload =
  result_hex :: "string option"
  result_start :: jsval
  result_count :: jsval

text \<open>
  A \<^verbatim>\<open>result\<close> message, and an entry of the history \<^verbatim>\<open>results\<close>: both have the fields
  \<^verbatim>\<open>job_id\<close>, \<^verbatim>\<open>result\<close> and \<^verbatim>\<open>timestamp\<close>.
\<close>

record result_data =
  job_id :: jsval
  result :: "result_payload option"
  timestamp :: jsval

text \<open>
  The fields of the class \<^verbatim>\<open>Dashboard\<close> that carry state. \<open>timers\<close> is not a field of
  the class: it records the delay of every \<^verbatim>\<open>setTimeout\<close> call made by
  \<^verbatim>\<open>scheduleReconnect\<close>, oldest first. \<open>ws\<close> holds the \<^verbatim>\<open>readyState\<close> of the
  current socket, \<open>None\<close> while \<^verbatim>\<open>this.ws\<close> is \<^verbatim>\<open>null\<close>. \<open>digitStates\<close> is a
  \<^verbatim>\<open>Map\<close>; its keys, like the elements of a \<^verbatim>\<open>Set\<close>, are compared by SameValueZero,
  under which \<^verbatim>\<open>NaN\<close> is equal to itself.
\<close>

record dashboard =
  ws :: "ready_state option"
  reconnectDelay :: int
  maxReconnectDelay :: int
  results :: "result_data list"
  maxResults :: nat
  digitStates :: "jsnum \<Rightarrow> digit_state option"
  maxDigit :: jsnum
  timers :: "int list"

definition constructor_state :: dashboard where
  "constructor_state =
     \<lparr>ws = None, reconnectDelay = 1000, maxReconnectDelay = 30000, results = [],
      maxResults = 50, digitStates = Map.empty, maxDigit = Finite (- 1), timers = []\<rparr>"

section \<open>Digit state table\<close>

text \<open>\<^verbatim>\<open>Set.prototype.add\<close>: a set keeps its elements in insertion order.\<close>

definition Set_add :: "jsnum \<Rightarrow> jsnum list \<Rightarrow> jsnum list" where
  "Set_add x S = (if x \<in> set S then S else S @ [x])"

text \<open>
  The digit indices one job wrapper runs through in the collecting loops of
  \<^verbatim>\<open>updateJobStates\<close>: none unless the payload passes the guard.
\<close>

definition job_digits :: "job \<Rightarrow> jsnum list" where
  "job_digits j =
     (case payload j of
        None \<Rightarrow> []
      | Some p \<Rightarrow>
          if payload_type p = JStr ''bbp_hex'' \<and> payload_start p \<noteq> JUndefined
             \<and> payload_count p \<noteq> JUndefined
          then (let start = parseInt (payload_start p);
                    count = parseInt (payload_count p)
                in map (\<lambda>i. js_add start (Finite i)) (loop_range count))
          else [])"

text \<open>
  One pass of the inner loop body: \<^verbatim>\<open>digits.add(digitIndex)\<close> and
  \<^verbatim>\<open>this.maxDigit = Math.max(this.maxDigit, digitIndex)\<close>.
\<close>

definition collect_digit :: "jsnum list \<times> jsnum \<Rightarrow> jsnum \<Rightarrow> jsnum list \<times> jsnum" where
  "collect_digit acc digitIndex = (Set_add digitIndex (fst acc), Math_max (snd acc) digitIndex)"

definition collect_jobs :: "job list \<Rightarrow> jsnum list \<times> jsnum \<Rightarrow> jsnum list \<times> jsnum" where
  "collect_jobs jobs acc = foldl (\<lambda>a j. foldl collect_digit a (job_digits j)) acc jobs"

text \<open>
  The loop over \<^verbatim>\<open>this.digitStates.entries()\<close>: each entry is visited once, and is
  deleted when it is \<^verbatim>\<open>'queue'\<close> or \<^verbatim>\<open>'inflight'\<close> and in neither set.
\<close>

definition clear_stale ::
  "jsnum list \<Rightarrow> jsnum list \<Rightarrow> (jsnum \<Rightarrow> digit_state option) \<Rightarrow> jsnum \<Rightarrow> digit_state option" where
  "clear_stale queueDigits inflightDigits m =
     (\<lambda>digitIndex.
        case m digitIndex of
          None \<Rightarrow> None
        | Some (Result v) \<Rightarrow> Some (Result v)
        | Some st \<Rightarrow>
            if digitIndex \<notin> set queueDigits \<and> digitIndex \<notin> set inflightDigits then None
            else Some st)"

definition is_result :: "digit_state option \<Rightarrow> bool" where
  "is_result e = (case e of Some (Result v) \<Rightarrow> True | _ \<Rightarrow> False)"

definition set_queue ::
  "jsnum list \<Rightarrow> jsnum \<Rightarrow> (jsnum \<Rightarrow> digit_state option) \<Rightarrow> jsnum \<Rightarrow> digit_state option" where
  "set_queue inflightDigits digitIndex m =
     (if \<not> is_result (m digitIndex) \<and> digitIndex \<notin> set inflightDigits
      then m(digitIndex \<mapsto> Queue) else m)"

definition set_inflight ::
  "jsnum \<Rightarrow> (jsnum \<Rightarrow> digit_state option) \<Rightarrow> jsnum \<Rightarrow> digit_state option" where
  "set_inflight digitIndex m =
     (if \<not> is_result (m digitIndex) then m(digitIndex \<mapsto> Inflight) else m)"

definition updateJobStates :: "job list \<Rightarrow> job list \<Rightarrow> dashboard \<Rightarrow> dashboard" where
  "updateJobStates queueJobs inflightJobs d =
     (let q = collect_jobs queueJobs ([], maxDigit d);
          f = collect_jobs inflightJobs ([], snd q);
          queueDigits = fst q;
          inflightDigits = fst f;
          m1 = clear_stale queueDigits inflightDigits (digitStates d);
          m2 = fold (set_queue inflightDigits) queueDigits m1;
          m3 = fold set_inflight inflightDigits m2
      in d\<lparr>digitStates := m3, maxDigit := snd f\<rparr>)"

text \<open>
  The values \<open>i\<close> of the loop of \<^verbatim>\<open>updateResultState\<close>, whose condition is
  \<^verbatim>\<open>i < count && i < hex.length\<close>.
\<close>

definition result_range :: "jsnum \<Rightarrow> string \<Rightarrow> int list" where
  "result_range count hex = takeWhile (\<lambda>i. i < int (length hex)) (loop_range count)"

definition set_result ::
  "jsnum \<Rightarrow> string \<Rightarrow> (jsnum \<Rightarrow> digit_state option) \<times> jsnum \<Rightarrow> int
     \<Rightarrow> (jsnum \<Rightarrow> digit_state option) \<times> jsnum" where
  "set_result start hex acc i =
     (let digitIndex = js_add start (Finite i);
          v = hex ! nat i
      in ((fst acc)(digitIndex \<mapsto> Result v), Math_max (snd acc) digitIndex))"

definition updateResultState :: "result_payload option \<Rightarrow> dashboard \<Rightarrow> dashboard" where
  "updateResultState res d =
     (case res of
        None \<Rightarrow> d
      | Some r \<Rightarrow>
          (case result_hex r of
             None \<Rightarrow> d
           | Some hex \<Rightarrow>
               if hex \<noteq> [] \<and> result_start r \<noteq> JUndefined \<and> result_count r \<noteq> JUndefined
               then (let start = parseInt (result_start r);
                         count = parseInt (result_count r);
                         acc = foldl (set_result start hex) (digitStates d, maxDigit d)
                                 (result_range count hex)
                     in d\<lparr>digitStates := fst acc, maxDigit := snd acc\<rparr>)
               else d))"






section \<open>Result history\<close>

text \<open>
  \<^verbatim>\<open>addResult(data)\<close>; \<open>now\<close> is the value of \<^verbatim>\<open>Math.floor(Date.now() / 1000)\<close> at
  the call.
\<close>

definition new_record :: "int \<Rightarrow> result_data \<Rightarrow> result_data" where
  "new_record now data =
     \<lparr>job_id = job_id data, result = result data,
      timestamp = (if truthy (timestamp data) then timestamp data else JNum now)\<rparr>"

definition addResult :: "int \<Rightarrow> result_data \<Rightarrow> dashboard \<Rightarrow> dashboard" where
  "addResult now data d =
     (let unshifted = new_record now data # results d;
          kept = (if length unshifted > maxResults d then take (maxResults d) unshifted
                  else unshifted)
      in updateResultState (result data) (d\<lparr>results := kept\<rparr>))"

section \<open>Hexadecimal fraction to decimal\<close>

text \<open>
  \<^verbatim>\<open>toUpperCase\<close> on the letters \<^verbatim>\<open>a\<close> to \<^verbatim>\<open>z\<close>; no other character becomes a hex
  digit by it.
\<close>

definition toUpperCase :: "string \<Rightarrow> string" where
  "toUpperCase s =
     map (\<lambda>c. if 97 \<le> (of_char c :: nat) \<and> (of_char c :: nat) \<le> 122
              then char_of ((of_char c :: nat) - 32) else c) s"

text \<open>\<^verbatim>\<open>BigInt(x)\<close> throws a \<^verbatim>\<open>RangeError\<close> when \<open>x\<close> is \<^verbatim>\<open>NaN\<close>.\<close>

fun BigInt :: "jsnum \<Rightarrow> js_error + int" where
  "BigInt NaN = Inl RangeError"
| "BigInt (Finite n) = Inr n"

text \<open>The first loop: \<^verbatim>\<open>numerator = numerator * 16n + BigInt(parseInt(hexDigit, 16))\<close>.\<close>

fun numerator_loop :: "string \<Rightarrow> int \<Rightarrow> js_error + int" where
  "numerator_loop [] numerator = Inr numerator"
| "numerator_loop (hexDigit # rest) numerator =
     (case BigInt (parseInt_string [hexDigit] 16) of
        Inl e \<Rightarrow> Inl e
      | Inr digitValue \<Rightarrow> numerator_loop rest (numerator * 16 + digitValue))"

text \<open>The second loop multiplies the denominator by 16 once per character.\<close>

fun denominator_loop :: "string \<Rightarrow> int \<Rightarrow> int" where
  "denominator_loop [] denominator = denominator"
| "denominator_loop (c # rest) denominator = denominator_loop rest (denominator * 16)"

text \<open>
  The digit loop, with the number of iterations left as first argument. The operands of
  the \<^verbatim>\<open>BigInt\<close> division and remainder are never negative, where they agree with
  \<open>div\<close> and \<open>mod\<close>.
\<close>

fun digit_loop :: "nat \<Rightarrow> int \<Rightarrow> int \<Rightarrow> string \<Rightarrow> string" where
  "digit_loop 0 currentNumerator denominator decimalResult = decimalResult"
| "digit_loop (Suc k) currentNumerator denominator decimalResult =
     (let n10 = currentNumerator * 10;
          digit = n10 div denominator;
          decimalResult' = decimalResult @ BigInt_toString digit;
          remainder = n10 mod denominator
      in if remainder = 0 then decimalResult'
         else digit_loop k remainder denominator decimalResult')"

text \<open>
  \<^verbatim>\<open>hexFractionToDecimal(hexString, maxDigits)\<close>; its one caller passes
  \<^verbatim>\<open>maxDigits\<close>. A character that is not a hex digit makes \<^verbatim>\<open>BigInt\<close> throw, which
  ends the function with the error.
\<close>

definition hexFractionToDecimal :: "string \<Rightarrow> int \<Rightarrow> js_error + string" where
  "hexFractionToDecimal hexString maxDigits =
     (if hexString = [] then Inr ''3.''
      else
        (let hexDigits = toUpperCase hexString
         in case numerator_loop hexDigits 0 of
              Inl e \<Rightarrow> Inl e
            | Inr numerator \<Rightarrow>
                (let denominator = denominator_loop hexDigits 1;
                     digitsToShow = min (int (length hexDigits)) maxDigits
                 in Inr (digit_loop (nat digitsToShow) numerator denominator ''3.''))))"

section \<open>Connection session\<close>

text \<open>\<^verbatim>\<open>scheduleReconnect\<close> calls \<^verbatim>\<open>setTimeout(callback, this.reconnectDelay)\<close>.\<close>

definition scheduleReconnect :: "dashboard \<Rightarrow> dashboard" where
  "scheduleReconnect d = d\<lparr>timers := timers d @ [reconnectDelay d]\<rparr>"

text \<open>
  \<^verbatim>\<open>connect\<close>: \<open>created\<close> tells whether \<^verbatim>\<open>new WebSocket(wsUrl)\<close> returned a socket;
  when it throws, \<^verbatim>\<open>this.ws\<close> keeps its value and the \<^verbatim>\<open>catch\<close> block schedules a
  reconnect.
\<close>

definition connect :: "bool \<Rightarrow> dashboard \<Rightarrow> dashboard" where
  "connect created d = (if created then d\<lparr>ws := Some CONNECTING\<rparr> else scheduleReconnect d)"

definition onopen :: "dashboard \<Rightarrow> dashboard" where
  "onopen d = d\<lparr>ws := Some OPEN, reconnectDelay := 1000\<rparr>"

text \<open>\<^verbatim>\<open>onerror\<close> only updates the status display.\<close>

definition onerror :: "dashboard \<Rightarrow> dashboard" where
  "onerror d = d"

definition onclose :: "dashboard \<Rightarrow> dashboard" where
  "onclose d = scheduleReconnect (d\<lparr>ws := Some CLOSED\<rparr>)"

text \<open>The callback that \<^verbatim>\<open>scheduleReconnect\<close> passes to \<^verbatim>\<open>setTimeout\<close>.\<close>

definition reconnect_callback :: "bool \<Rightarrow> dashboard \<Rightarrow> dashboard" where
  "reconnect_callback created d =
     (if ws d = Some CLOSED
      then (let d' = connect created d
            in d'\<lparr>reconnectDelay := min (reconnectDelay d' * 2) (maxReconnectDelay d')\<rparr>)
      else d)"

text \<open>\<^verbatim>\<open>new Dashboard()\<close>: the constructor sets the fields and calls \<^verbatim>\<open>connect\<close>.\<close>

definition new_Dashboard :: "bool \<Rightarrow> dashboard" where
  "new_Dashboard created = connect created constructor_state"

section \<open>Notions used to state the properties\<close>

text \<open>All digit indices the collecting loop runs through for a list of job wrappers.\<close>

definition jobs_digits :: "job list \<Rightarrow> jsnum list" where
  "jobs_digits jobs = concat (map job_digits jobs)"

text \<open>
  The set \<^verbatim>\<open>queueDigits\<close> (or \<^verbatim>\<open>inflightDigits\<close>) that \<^verbatim>\<open>updateJobStates\<close> builds
  from a list of job wrappers; it does not depend on \<^verbatim>\<open>maxDigit\<close>.
\<close>

definition snapshot_digits :: "job list \<Rightarrow> jsnum list" where
  "snapshot_digits jobs = fst (collect_jobs jobs ([], NaN))"

text \<open>A job wrapper \<^verbatim>\<open>{payload: {type: "bbp_hex", start, count}}\<close>.\<close>

definition bbp_job :: "jsval \<Rightarrow> jsval \<Rightarrow> job" where
  "bbp_job start count =
     \<lparr>payload = Some \<lparr>payload_type = JStr ''bbp_hex'', payload_start = start,
        payload_count = count\<rparr>\<rparr>"

text \<open>A result payload \<^verbatim>\<open>{hex, start, count}\<close>.\<close>

definition hex_result :: "string \<Rightarrow> jsval \<Rightarrow> jsval \<Rightarrow> result_payload" where
  "hex_result hex start count =
     \<lparr>result_hex = Some hex, result_start = start, result_count = count\<rparr>"


text \<open>
  A sequence of \<^verbatim>\<open>addResult\<close> calls, oldest first, each with the clock value at the call.
\<close>

definition record_all :: "(int \<times> result_data) list \<Rightarrow> dashboard \<Rightarrow> dashboard" where
  "record_all calls d = foldl (\<lambda>d' c. addResult (fst c) (snd c) d') d calls"

text \<open>A result payload that is absent or lacks \<^verbatim>\<open>hex\<close>, \<^verbatim>\<open>start\<close> or \<^verbatim>\<open>count\<close>.\<close>

definition missing_fields :: "result_payload option \<Rightarrow> bool" where
  "missing_fields res =
     (case res of
        None \<Rightarrow> True
      | Some r \<Rightarrow> result_hex r = None \<or> result_start r = JUndefined
                  \<or> result_count r = JUndefined)"

text \<open>The \<open>k\<close>-th of a numbered series of result messages, received at time \<open>k\<close>.\<close>

definition numbered_result :: "nat \<Rightarrow> int \<times> result_data" where
  "numbered_result k =
     (int k, \<lparr>job_id = JNum (int k), result = None, timestamp = JUndefined\<rparr>)"



text \<open>
  The table is in order when \<^verbatim>\<open>maxDigit\<close> is a number and no index above it holds a
  result.
\<close>

definition table_ok :: "dashboard \<Rightarrow> bool" where
  "table_ok d =
     (case maxDigit d of
        NaN \<Rightarrow> False
      | Finite h \<Rightarrow> \<forall>i. is_result (digitStates d (Finite i)) \<longrightarrow> i \<le> h)"






subsection \<open>Reconnection scenarios\<close>

text \<open>
  A reconnect attempt that fails: the timer fires, \<^verbatim>\<open>connect\<close> creates a socket, and
  the socket closes without having opened. One that succeeds: the socket opens. The URL
  is computed from the location of the page at every call, so \<^verbatim>\<open>new WebSocket\<close> returns
  a socket at a reconnect when it did in the constructor; had it thrown there,
  \<^verbatim>\<open>this.ws\<close> would be \<^verbatim>\<open>null\<close> and the timer callback would never reconnect.
\<close>

definition failed_attempt :: "dashboard \<Rightarrow> dashboard" where
  "failed_attempt d = onclose (reconnect_callback True d)"

definition successful_attempt :: "dashboard \<Rightarrow> dashboard" where
  "successful_attempt d = onopen (reconnect_callback True d)"

text \<open>The delay \<open>min(1000 * 2^k, 30000)\<close>.\<close>

definition backoff_delay :: "nat \<Rightarrow> int" where
  "backoff_delay k = min (1000 * 2 ^ k) 30000"

subsection \<open>The decimal expansion, as the specification words it\<close>

text \<open>
  A hex-digit string; its value read as a base-16 integer; the rational number
  \<open>h / 16^L\<close>; the \<open>j\<close>-th decimal digit of a rational \<open>q\<close> with \<open>0 \<le> q < 1\<close>; whether
  the expansion of \<open>q\<close> ends at digit \<open>j\<close> (the remainder is zero); the number of digits
  written when at most \<open>b\<close> are asked for, which is the first \<open>j\<close> from \<open>1\<close> to \<open>b\<close> where
  the expansion ends, and \<open>b\<close> if there is none; and the expansion cut after \<open>n\<close> digits.
\<close>

definition is_hex_string :: "string \<Rightarrow> bool" where
  "is_hex_string h = list_all (radix_digit 16) h"

definition hex_value :: "string \<Rightarrow> nat" where
  "hex_value h = foldl (\<lambda>a c. 16 * a + (case digit_value c of Some v \<Rightarrow> v | None \<Rightarrow> 0)) 0 h"

definition frac_value :: "string \<Rightarrow> rat" where
  "frac_value h = of_nat (hex_value h) / 16 ^ length h"

definition decimal_digit :: "rat \<Rightarrow> nat \<Rightarrow> nat" where
  "decimal_digit q j = nat (\<lfloor>q * 10 ^ j\<rfloor> mod 10)"

definition exact_at :: "rat \<Rightarrow> nat \<Rightarrow> bool" where
  "exact_at q j \<longleftrightarrow> of_int \<lfloor>q * 10 ^ j\<rfloor> = q * 10 ^ j"

definition digits_emitted :: "rat \<Rightarrow> nat \<Rightarrow> nat" where
  "digits_emitted q b = (case find (exact_at q) [1..<Suc b] of Some j \<Rightarrow> j | None \<Rightarrow> b)"

definition truncated_expansion :: "rat \<Rightarrow> nat \<Rightarrow> string" where
  "truncated_expansion q n = map (\<lambda>j. digit_char (decimal_digit q j)) [1..<Suc n]"

text \<open>
  The characters written for a list of digit positions, stopping after the first position
  that satisfies \<open>P\<close>.
\<close>

fun emit :: "(nat \<Rightarrow> char) \<Rightarrow> (nat \<Rightarrow> bool) \<Rightarrow> nat list \<Rightarrow> string" where
  "emit dc P [] = []"
| "emit dc P (j # js) = dc j # (if P j then [] else emit dc P js)"

section \<open>Properties of \<^verbatim>\<open>parseInt\<close>\<close>

text \<open>
  An integer printed in decimal is read back as itself, and \<^verbatim>\<open>undefined\<close>, \<^verbatim>\<open>null\<close>
  and the booleans are read as \<^verbatim>\<open>NaN\<close>.
\<close>

lemma digit_value_digit_char: "k < 10 \<Longrightarrow> digit_value (digit_char k) = Some k"
  by (simp add: digit_value_def digit_char_def)

lemma digits_value_snoc:
  "digits_value R (Z @ [c]) = (case digit_value c of Some v \<Rightarrow> digits_value R Z * R + v | None \<Rightarrow> digits_value R Z)"
  by (simp add: digits_value_def split: option.splits)

lemma BigInt_toString_nonneg:
  "0 \<le> n \<Longrightarrow>
   BigInt_toString n \<noteq> [] \<and> list_all (radix_digit 10) (BigInt_toString n)
     \<and> digits_value 10 (BigInt_toString n) = nat n"
proof (induction "nat n" arbitrary: n rule: less_induct)
  case less
  show ?case
  proof (cases "n < 10")
    case True
    then have "BigInt_toString n = [digit_char (nat n)]"
      using less.prems by (subst BigInt_toString.simps) simp
    moreover have "digit_value (digit_char (nat n)) = Some (nat n)"
      using True less.prems by (intro digit_value_digit_char) simp
    ultimately show ?thesis
      using True less.prems by (simp add: radix_digit_def digits_value_def)
  next
    case False
    then have e: "BigInt_toString n = BigInt_toString (n div 10) @ [digit_char (nat (n mod 10))]"
      using less.prems by (subst BigInt_toString.simps) simp
    have "nat (n div 10) < nat n" "0 \<le> n div 10" using False less.prems by simp_all
    from less.hyps [OF this] have IH: "BigInt_toString (n div 10) \<noteq> []"
      "list_all (radix_digit 10) (BigInt_toString (n div 10))"
      "digits_value 10 (BigInt_toString (n div 10)) = nat (n div 10)" by simp_all
    have d: "digit_value (digit_char (nat (n mod 10))) = Some (nat (n mod 10))"
      using less.prems by (intro digit_value_digit_char) simp
    have "int (nat (n div 10) * 10 + nat (n mod 10)) = n"
      using less.prems \<open>0 \<le> n div 10\<close> by simp
    then have "nat (n div 10) * 10 + nat (n mod 10) = nat n"
      by (metis nat_int)
    moreover have "nat (n mod 10) < 10" using less.prems by simp
    ultimately show ?thesis
      using IH d by (simp add: e digits_value_snoc radix_digit_def)
  qed
qed

lemma not_space_or_sign:
  "48 \<le> (of_char u :: nat) \<Longrightarrow> \<not> StrWhiteSpaceChar u \<and> u \<noteq> CHR ''-'' \<and> u \<noteq> CHR ''+''"
  by (auto simp: StrWhiteSpaceChar_def)

lemma radix_digit_code: "radix_digit R u \<Longrightarrow> 48 \<le> (of_char u :: nat)"
  by (auto simp: radix_digit_def digit_value_def Let_def split: option.splits if_splits)

lemma decimal_no_prefix:
  assumes "list_all (radix_digit 10) ds"
  shows "take 2 ds \<noteq> ''0x'' \<and> take 2 ds \<noteq> ''0X''"
proof (cases ds)
  case Nil
  then show ?thesis by simp
next
  case (Cons a as)
  show ?thesis
  proof (cases as)
    case Nil
    with Cons show ?thesis by simp
  next
    case (Cons b bs)
    with assms \<open>ds = a # as\<close> have "radix_digit 10 b" by simp
    moreover have "\<not> radix_digit 10 CHR ''x''" "\<not> radix_digit 10 CHR ''X''"
      by (simp_all add: radix_digit_def digit_value_def)
    ultimately have "b \<noteq> CHR ''x''" "b \<noteq> CHR ''X''" by auto
    with Cons \<open>ds = a # as\<close> show ?thesis by simp
  qed
qed

lemma parseInt_string_decimal:
  assumes "ds \<noteq> []" "list_all (radix_digit 10) ds"
  shows "parseInt_string ds 0 = Finite (int (digits_value 10 ds))"
    and "parseInt_string (CHR ''-'' # ds) 0 = Finite (- int (digits_value 10 ds))"
proof -
  from assms obtain a as where ds: "ds = a # as" "radix_digit 10 a"
    by (cases ds) auto
  from not_space_or_sign [OF radix_digit_code [OF ds(2)]]
  have a: "\<not> StrWhiteSpaceChar a" "a \<noteq> CHR ''-''" "a \<noteq> CHR ''+''" by simp_all
  have m: "\<not> StrWhiteSpaceChar CHR ''-''" by (simp add: StrWhiteSpaceChar_def)
  note p = decimal_no_prefix [OF assms(2)]
  have t: "takeWhile (radix_digit 10) ds = ds"
    using assms(2) by (simp add: takeWhile_eq_all_conv list_all_iff)
  have d1: "dropWhile StrWhiteSpaceChar ds = ds" using ds(1) a(1) by simp
  have d2: "dropWhile StrWhiteSpaceChar (CHR ''-'' # ds) = CHR ''-'' # ds" using m by simp
  have h: "hd ds = a" using ds(1) by simp
  show "parseInt_string ds 0 = Finite (int (digits_value 10 ds))"
    unfolding parseInt_string_def d1 Let_def
    using assms(1) a p by (simp add: h t)
  show "parseInt_string (CHR ''-'' # ds) 0 = Finite (- int (digits_value 10 ds))"
    unfolding parseInt_string_def d2 Let_def
    using assms(1) p by (simp add: t)
qed

lemma parseInt_JNum [simp]: "parseInt (JNum n) = Finite n"
proof (cases "0 \<le> n")
  case True
  from BigInt_toString_nonneg [OF True] parseInt_string_decimal(1) [of "BigInt_toString n"]
  show ?thesis using True by (simp add: parseInt_def)
next
  case False
  then have e: "BigInt_toString n = CHR ''-'' # BigInt_toString (- n)"
    by (subst BigInt_toString.simps) simp
  from False have "0 \<le> - n" by simp
  from BigInt_toString_nonneg [OF this] parseInt_string_decimal(2) [of "BigInt_toString (- n)"]
  show ?thesis using False by (simp add: parseInt_def e)
qed

lemma parseInt_not_number [simp]:
  "parseInt JUndefined = NaN" "parseInt JNull = NaN" "parseInt (JBool b) = NaN"
  by (simp_all add: parseInt_def parseInt_string_def StrWhiteSpaceChar_def radix_digit_def
      digit_value_def)

lemma parseInt_JStr [simp]: "parseInt (JStr s) = parseInt_string s 0"
  by (simp add: parseInt_def)

section \<open>Properties of the digit state table\<close>

subsection \<open>What a snapshot does to one index\<close>

lemma fold_set_queue:
  "fold (set_queue I) Q m x =
     (if x \<in> set Q \<and> x \<notin> set I \<and> \<not> is_result (m x) then Some Queue else m x)"
  by (induction Q arbitrary: m) (auto simp: set_queue_def is_result_def)

lemma fold_set_inflight:
  "fold set_inflight I m x = (if x \<in> set I \<and> \<not> is_result (m x) then Some Inflight else m x)"
  by (induction I arbitrary: m) (auto simp: set_inflight_def is_result_def)

lemma is_result_clear_stale: "is_result (clear_stale Q I m x) = is_result (m x)"
  by (auto simp: clear_stale_def is_result_def split: option.splits digit_state.splits)

lemma clear_stale_result: "is_result (m x) \<Longrightarrow> clear_stale Q I m x = m x"
  by (auto simp: clear_stale_def is_result_def split: option.splits digit_state.splits)

lemma clear_stale_other:
  "\<not> is_result (m x) \<Longrightarrow>
   clear_stale Q I m x = (if x \<notin> set Q \<and> x \<notin> set I then None else m x)"
  by (auto simp: clear_stale_def is_result_def split: option.splits digit_state.splits)

lemma foldl_collect_digit:
  "foldl collect_digit (S, m) xs = (foldl (\<lambda>S x. Set_add x S) S xs, foldl Math_max m xs)"
  by (induction xs arbitrary: S m) (simp_all add: collect_digit_def)

lemma collect_jobs_eq:
  "collect_jobs jobs (S, m) =
     (foldl (\<lambda>S x. Set_add x S) S (jobs_digits jobs), foldl Math_max m (jobs_digits jobs))"
  unfolding collect_jobs_def jobs_digits_def
  by (induction jobs arbitrary: S m) (simp_all add: foldl_collect_digit)

lemma set_foldl_Set_add: "set (foldl (\<lambda>S x. Set_add x S) S xs) = set S \<union> set xs"
  by (induction xs arbitrary: S) (auto simp: Set_add_def)

lemma fst_collect_jobs: "fst (collect_jobs jobs ([], m)) = snapshot_digits jobs"
  by (simp add: collect_jobs_eq snapshot_digits_def)

lemma set_snapshot_digits: "set (snapshot_digits jobs) = set (jobs_digits jobs)"
  by (simp add: snapshot_digits_def collect_jobs_eq set_foldl_Set_add)

lemma digitStates_updateJobStates:
  "digitStates (updateJobStates queueJobs inflightJobs d) x =
     (if is_result (digitStates d x) then digitStates d x
      else if x \<in> set (snapshot_digits inflightJobs) then Some Inflight
      else if x \<in> set (snapshot_digits queueJobs) then Some Queue
      else None)"
  by (simp add: updateJobStates_def Let_def fold_set_inflight fold_set_queue fst_collect_jobs
      is_result_clear_stale clear_stale_result clear_stale_other is_result_def)

lemma maxDigit_updateJobStates:
  "maxDigit (updateJobStates queueJobs inflightJobs d) =
     foldl Math_max (maxDigit d) (jobs_digits queueJobs @ jobs_digits inflightJobs)"
  by (simp add: updateJobStates_def Let_def collect_jobs_eq)

lemma Math_max_assoc: "Math_max (Math_max a b) c = Math_max a (Math_max b c)"
  by (cases a; cases b; cases c) simp_all

lemma Math_max_commute: "Math_max a b = Math_max b a"
  by (cases a; cases b) simp_all

lemma Math_max_idem: "Math_max a a = a"
  by (cases a) simp_all

lemma foldl_Math_max_shift: "foldl Math_max (Math_max m x) xs = Math_max (foldl Math_max m xs) x"
proof (induction xs arbitrary: m)
  case Nil
  show ?case by simp
next
  case (Cons y ys)
  have "Math_max (Math_max m x) y = Math_max (Math_max m y) x"
    by (metis Math_max_assoc Math_max_commute)
  then show ?case by (simp add: Cons.IH)
qed

lemma foldl_Math_max_absorb:
  "x \<in> set xs \<Longrightarrow> Math_max (foldl Math_max m xs) x = foldl Math_max m xs"
proof (induction xs arbitrary: m)
  case Nil
  then show ?case by simp
next
  case (Cons y ys)
  show ?case
  proof (cases "x = y")
    case True
    have "Math_max (foldl Math_max (Math_max m y) ys) y = foldl Math_max (Math_max (Math_max m y) y) ys"
      by (simp add: foldl_Math_max_shift)
    also have "Math_max (Math_max m y) y = Math_max m y"
      by (simp add: Math_max_assoc Math_max_idem)
    finally show ?thesis using True by simp
  next
    case False
    with Cons.prems have "x \<in> set ys" by simp
    then show ?thesis by (simp add: Cons.IH)
  qed
qed

lemma foldl_Math_max_fixed:
  "\<forall>x \<in> set ys. Math_max M x = M \<Longrightarrow> foldl Math_max M ys = M"
  by (induction ys) simp_all

lemma foldl_Math_max_twice:
  "foldl Math_max (foldl Math_max m xs) xs = foldl Math_max m xs"
  by (rule foldl_Math_max_fixed) (simp add: foldl_Math_max_absorb)

lemma updateJobStates_fields:
  "ws (updateJobStates q f d) = ws d"
  "reconnectDelay (updateJobStates q f d) = reconnectDelay d"
  "maxReconnectDelay (updateJobStates q f d) = maxReconnectDelay d"
  "results (updateJobStates q f d) = results d"
  "maxResults (updateJobStates q f d) = maxResults d"
  "timers (updateJobStates q f d) = timers d"
  by (simp_all add: updateJobStates_def Let_def)

lemma is_result_updateJobStates:
  "is_result (digitStates (updateJobStates q f d) x) = is_result (digitStates d x)"
  by (simp add: digitStates_updateJobStates is_result_def)

subsection \<open>Concrete snapshots\<close>

lemma job_digits_bbp_job_num:
  "job_digits (bbp_job (JNum s) (JNum c)) = map (\<lambda>i. Finite (s + i)) (map int [0..<nat c])"
  by (simp add: job_digits_def bbp_job_def)


lemma snapshot_digits_0_4: "snapshot_digits [bbp_job (JNum 0) (JNum 4)] = [Finite 0, Finite 1, Finite 2, Finite 3]"
  by (simp add: snapshot_digits_def collect_jobs_def job_digits_bbp_job_num collect_digit_def Set_add_def upt_rec)

lemma digitStates_first_result: "digitStates (updateResultState (Some (hex_result ''2'' (JNum 0) (JNum 1))) constructor_state) (Finite 0) = Some (Result CHR ''2'')"
  by (simp add: updateResultState_def hex_result_def result_range_def set_result_def constructor_state_def Let_def)

subsection \<open>Results are sticky\<close>

text \<open>
  C1. Once \<^verbatim>\<open>digitStates\<close> holds a result for a digit index \<open>i\<close>, no later sequence of
  \<^verbatim>\<open>updateJobStates\<close> calls, whatever their queued and in-flight job lists, changes
  the state or the stored value of \<open>i\<close>.
\<close>

theorem result_sticky:
  "digitStates d i = Some (Result v) \<Longrightarrow>
   digitStates (foldl (\<lambda>d' snapshot. updateJobStates (fst snapshot) (snd snapshot) d') d snapshots) i
     = Some (Result v)"
proof (induction snapshots arbitrary: d)
  case Nil
  then show ?case by simp
next
  case (Cons s ss)
  have "digitStates (updateJobStates (fst s) (snd s) d) i = Some (Result v)"
    using Cons.prems by (simp add: digitStates_updateJobStates is_result_def)
  then show ?case by (simp add: Cons.IH)
qed

theorem result_sticky_witness:
  "digitStates (updateResultState (Some (hex_result ''2'' (JNum 0) (JNum 1))) constructor_state) (Finite 0)
     = Some (Result CHR ''2'') \<and>
   digitStates (foldl (\<lambda>d' snapshot. updateJobStates (fst snapshot) (snd snapshot) d')
      (updateResultState (Some (hex_result ''2'' (JNum 0) (JNum 1))) constructor_state)
      [([bbp_job (JNum 0) (JNum 4)], []), ([], [bbp_job (JNum 0) (JNum 4)])]) (Finite 0)
     = Some (Result CHR ''2'')"
  using result_sticky [of "updateResultState (Some (hex_result ''2'' (JNum 0) (JNum 1))) constructor_state"
      "Finite 0" "CHR ''2''" "[([bbp_job (JNum 0) (JNum 4)], []), ([], [bbp_job (JNum 0) (JNum 4)])]"]
    digitStates_first_result
  by blast

subsection \<open>A snapshot is idempotent\<close>

text \<open>
  C4. Applying \<^verbatim>\<open>updateJobStates\<close> with the same two job lists twice in a row leaves
  the dashboard, table entries and \<^verbatim>\<open>maxDigit\<close> included, as it is after the first
  call.
\<close>

theorem snapshot_idempotent:
  "updateJobStates Q I (updateJobStates Q I d) = updateJobStates Q I d"
proof -
  let ?d1 = "updateJobStates Q I d"
  have m: "maxDigit (updateJobStates Q I ?d1) = maxDigit ?d1"
    unfolding maxDigit_updateJobStates by (rule foldl_Math_max_twice)
  have t: "digitStates (updateJobStates Q I ?d1) = digitStates ?d1"
    by (rule ext) (simp add: digitStates_updateJobStates is_result_def)
  show ?thesis
    by (rule dashboard.equality) (simp_all add: m t updateJobStates_fields)
qed

subsection \<open>In flight wins over queued\<close>

text \<open>
  C5. A digit index that does not hold a result and that is in both the queued and the
  in-flight index set of one \<^verbatim>\<open>updateJobStates\<close> call is \<^verbatim>\<open>'inflight'\<close> after the
  call.
\<close>

theorem inflight_priority:
  "i \<in> set (snapshot_digits queueJobs) \<Longrightarrow> i \<in> set (snapshot_digits inflightJobs) \<Longrightarrow>
   \<not> is_result (digitStates d i) \<Longrightarrow>
   digitStates (updateJobStates queueJobs inflightJobs d) i = Some Inflight"
  by (simp add: digitStates_updateJobStates)

theorem inflight_priority_witness:
  "Finite 2 \<in> set (snapshot_digits [bbp_job (JNum 0) (JNum 4)]) \<and>
   Finite 2 \<in> set (snapshot_digits [bbp_job (JNum 2) (JNum 1)]) \<and>
   \<not> is_result (digitStates constructor_state (Finite 2)) \<and>
   digitStates (updateJobStates [bbp_job (JNum 0) (JNum 4)] [bbp_job (JNum 2) (JNum 1)] constructor_state) (Finite 2)
     = Some Inflight"
proof -
  have q: "Finite 2 \<in> set (snapshot_digits [bbp_job (JNum 0) (JNum 4)])"
    by (simp add: snapshot_digits_0_4)
  have f: "Finite 2 \<in> set (snapshot_digits [bbp_job (JNum 2) (JNum 1)])"
    by (simp add: snapshot_digits_def collect_jobs_def job_digits_bbp_job_num collect_digit_def Set_add_def)
  have e: "\<not> is_result (digitStates constructor_state (Finite 2))"
    by (simp add: constructor_state_def is_result_def)
  from inflight_priority [OF q f e] q f e show ?thesis by blast
qed

subsection \<open>Skipped job wrappers\<close>







section \<open>Properties of \<^verbatim>\<open>updateResultState\<close>\<close>




lemma updateResultState_other_fields:
  "ws (updateResultState r d) = ws d"
  "reconnectDelay (updateResultState r d) = reconnectDelay d"
  "maxReconnectDelay (updateResultState r d) = maxReconnectDelay d"
  "results (updateResultState r d) = results d"
  "maxResults (updateResultState r d) = maxResults d"
  "timers (updateResultState r d) = timers d"
  by (simp_all add: updateResultState_def Let_def split: option.splits)







section \<open>Properties of \<^verbatim>\<open>getAllHexDigits\<close>\<close>








subsection \<open>The tables in order\<close>


lemma foldl_Math_max_finite:
  "NaN \<notin> set xs \<Longrightarrow> \<exists>h'. foldl Math_max (Finite h) xs = Finite h' \<and> h \<le> h'"
proof (induction xs arbitrary: h)
  case Nil
  show ?case by simp
next
  case (Cons x xs)
  then obtain j where j: "x = Finite j" by (cases x) auto
  from Cons.prems have "NaN \<notin> set xs" by simp
  from Cons.IH [OF this, of "max h j"] obtain h' where
    "foldl Math_max (Finite (max h j)) xs = Finite h'" "max h j \<le> h'" by blast
  then show ?case using j by auto
qed

lemma table_ok_updateJobStates:
  assumes "table_ok d" "NaN \<notin> set (jobs_digits queueJobs)" "NaN \<notin> set (jobs_digits inflightJobs)"
  shows "table_ok (updateJobStates queueJobs inflightJobs d)"
proof -
  from assms(1) obtain h where h: "maxDigit d = Finite h"
    "\<forall>i. is_result (digitStates d (Finite i)) \<longrightarrow> i \<le> h"
    by (auto simp: table_ok_def split: jsnum.splits)
  have "NaN \<notin> set (jobs_digits queueJobs @ jobs_digits inflightJobs)"
    using assms(2,3) by simp
  from foldl_Math_max_finite [OF this, of h] obtain h' where
    h': "foldl Math_max (Finite h) (jobs_digits queueJobs @ jobs_digits inflightJobs) = Finite h'"
    "h \<le> h'" by blast
  have "maxDigit (updateJobStates queueJobs inflightJobs d) = Finite h'"
    unfolding maxDigit_updateJobStates h(1) by (rule h'(1))
  moreover have "\<forall>i. is_result (digitStates (updateJobStates queueJobs inflightJobs d) (Finite i)) \<longrightarrow> i \<le> h'"
    using h(2) h'(2) by (auto simp: is_result_updateJobStates)
  ultimately show ?thesis by (simp add: table_ok_def)
qed


subsection \<open>Two concrete tables\<close>

lemma hex_result_fields:
  "result_hex (hex_result hex s c) = Some hex" "result_start (hex_result hex s c) = s"
  "result_count (hex_result hex s c) = c"
  by (simp_all add: hex_result_def)





subsection \<open>The prefix up to the first gap\<close>




section \<open>Properties of the result history\<close>

lemma results_addResult:
  "results (addResult now data d) = take (maxResults d) (new_record now data # results d)"
  by (simp add: addResult_def Let_def updateResultState_other_fields)

lemma maxResults_addResult: "maxResults (addResult now data d) = maxResults d"
  by (simp add: addResult_def Let_def updateResultState_other_fields)

lemma maxResults_record_all: "maxResults (record_all calls d) = maxResults d"
  unfolding record_all_def by (induction calls arbitrary: d) (simp_all add: maxResults_addResult)

lemma take_append_take_right: "take n (xs @ take n ys) = take n (xs @ ys)"
  by (simp add: min_def)

lemma results_record_all:
  "length (results d) \<le> maxResults d \<Longrightarrow>
   results (record_all calls d) =
     take (maxResults d) (rev (map (\<lambda>c. new_record (fst c) (snd c)) calls) @ results d)"
proof (induction calls arbitrary: d)
  case Nil
  then show ?case by (simp add: record_all_def)
next
  case (Cons c cs)
  let ?d = "addResult (fst c) (snd c) d"
  have l: "length (results ?d) \<le> maxResults ?d"
    by (simp add: results_addResult maxResults_addResult)
  have "results (record_all (c # cs) d) = results (record_all cs ?d)"
    by (simp add: record_all_def)
  also have "\<dots> = take (maxResults d) (rev (map (\<lambda>c. new_record (fst c) (snd c)) cs)
        @ take (maxResults d) (new_record (fst c) (snd c) # results d))"
    using Cons.IH [OF l] by (simp add: maxResults_addResult results_addResult)
  also have "\<dots> = take (maxResults d) (rev (map (\<lambda>c. new_record (fst c) (snd c)) cs)
        @ new_record (fst c) (snd c) # results d)"
    by (rule take_append_take_right)
  finally show ?case by simp
qed

text \<open>
  C8. After any sequence of \<^verbatim>\<open>addResult\<close> calls on a new dashboard, \<^verbatim>\<open>results\<close>
  holds the recorded entries most recent first, at most 50 of them; after 60 calls it
  holds exactly the 50 most recent ones, most recent first.
\<close>

theorem history_bound:
  "results (record_all calls (new_Dashboard created))
      = take 50 (rev (map (\<lambda>c. new_record (fst c) (snd c)) calls))
   \<and> length (results (record_all calls (new_Dashboard created))) \<le> 50
   \<and> (length calls = 60 \<longrightarrow>
        results (record_all calls (new_Dashboard created))
          = rev (map (\<lambda>c. new_record (fst c) (snd c)) (drop 10 calls))
        \<and> length (results (record_all calls (new_Dashboard created))) = 50)"
proof -
  let ?d = "new_Dashboard created"
  have m: "maxResults ?d = 50" and r: "results ?d = []"
    by (simp_all add: new_Dashboard_def connect_def scheduleReconnect_def constructor_state_def)
  have e: "results (record_all calls ?d) = take 50 (rev (map (\<lambda>c. new_record (fst c) (snd c)) calls))"
    using results_record_all [of ?d calls] by (simp add: m r)
  have "take 50 (rev (map (\<lambda>c. new_record (fst c) (snd c)) calls))
      = rev (map (\<lambda>c. new_record (fst c) (snd c)) (drop 10 calls))" if "length calls = 60"
    using that take_rev [of 50 "map (\<lambda>c. new_record (fst c) (snd c)) calls"]
    by (simp only: length_map drop_map) simp
  then show ?thesis by (simp add: e del: rev_map)
qed

theorem history_bound_witness:
  "length (map numbered_result [0..<60]) = 60
   \<and> results (record_all (map numbered_result [0..<60]) (new_Dashboard True))
       = rev (map (\<lambda>c. new_record (fst c) (snd c)) (drop 10 (map numbered_result [0..<60])))
   \<and> length (results (record_all (map numbered_result [0..<60]) (new_Dashboard True))) = 50"
proof -
  have l: "length (map numbered_result [0..<60]) = 60" by simp
  from history_bound [of "map numbered_result [0..<60]" True] l show ?thesis by blast
qed

text \<open>
  C10. A result message whose result payload is absent or lacks \<^verbatim>\<open>hex\<close>,
  \<^verbatim>\<open>start\<close> or \<^verbatim>\<open>count\<close> is still put at the front of the history, which is cut to
  its capacity, while the table entries and \<^verbatim>\<open>maxDigit\<close> stay as they are.
\<close>

theorem incomplete_result_recorded:
  assumes "missing_fields (result data)"
  shows "results (addResult now data d) = take (maxResults d) (new_record now data # results d)
    \<and> digitStates (addResult now data d) = digitStates d
    \<and> maxDigit (addResult now data d) = maxDigit d"
  using assms
  by (auto simp: addResult_def Let_def updateResultState_def missing_fields_def split: option.splits)

theorem incomplete_result_recorded_witness:
  "missing_fields (Some \<lparr>result_hex = None, result_start = JNum 0, result_count = JNum 4\<rparr>)
   \<and> results (addResult 7 \<lparr>job_id = JStr ''a'', result = Some \<lparr>result_hex = None, result_start = JNum 0, result_count = JNum 4\<rparr>, timestamp = JNum 5\<rparr> constructor_state)
       = [\<lparr>job_id = JStr ''a'', result = Some \<lparr>result_hex = None, result_start = JNum 0, result_count = JNum 4\<rparr>, timestamp = JNum 5\<rparr>]
   \<and> digitStates (addResult 7 \<lparr>job_id = JStr ''a'', result = Some \<lparr>result_hex = None, result_start = JNum 0, result_count = JNum 4\<rparr>, timestamp = JNum 5\<rparr> constructor_state)
       = digitStates constructor_state
   \<and> maxDigit (addResult 7 \<lparr>job_id = JStr ''a'', result = Some \<lparr>result_hex = None, result_start = JNum 0, result_count = JNum 4\<rparr>, timestamp = JNum 5\<rparr> constructor_state)
       = Finite (- 1)"
  using incomplete_result_recorded [of "\<lparr>job_id = JStr ''a'', result = Some \<lparr>result_hex = None, result_start = JNum 0, result_count = JNum 4\<rparr>, timestamp = JNum 5\<rparr>" 7 constructor_state]
  by (simp add: missing_fields_def constructor_state_def new_record_def)

section \<open>Properties of the connection session\<close>

lemma backoff_delay_Suc: "min (backoff_delay k * 2) 30000 = backoff_delay (Suc k)"
  by (simp add: backoff_delay_def min_def)

lemma failed_attempt_fields:
  "ws d = Some CLOSED \<Longrightarrow>
     ws (failed_attempt d) = Some CLOSED
   \<and> maxReconnectDelay (failed_attempt d) = maxReconnectDelay d
   \<and> reconnectDelay (failed_attempt d) = min (reconnectDelay d * 2) (maxReconnectDelay d)
   \<and> timers (failed_attempt d) = timers d @ [min (reconnectDelay d * 2) (maxReconnectDelay d)]"
  by (simp add: failed_attempt_def onclose_def reconnect_callback_def connect_def
      scheduleReconnect_def Let_def)

lemma failed_attempts_state:
  assumes "ws d = Some CLOSED" "maxReconnectDelay d = 30000" "reconnectDelay d = backoff_delay j"
  shows "ws ((failed_attempt ^^ n) d) = Some CLOSED
    \<and> maxReconnectDelay ((failed_attempt ^^ n) d) = 30000
    \<and> reconnectDelay ((failed_attempt ^^ n) d) = backoff_delay (j + n)
    \<and> timers ((failed_attempt ^^ n) d) = timers d @ map (\<lambda>k. backoff_delay (j + k)) [1..<Suc n]"
proof (induction n)
  case 0
  show ?case using assms by simp
next
  case (Suc n)
  let ?d = "(failed_attempt ^^ n) d"
  from Suc have c: "ws ?d = Some CLOSED" by simp
  have "map (\<lambda>k. backoff_delay (j + k)) [1..<Suc (Suc n)]
      = map (\<lambda>k. backoff_delay (j + k)) [1..<Suc n] @ [backoff_delay (Suc (j + n))]"
    by simp
  then show ?case
    using failed_attempt_fields [OF c] Suc by (simp add: backoff_delay_Suc)
qed

lemma onclose_fields:
  "ws (onclose d) = Some CLOSED" "maxReconnectDelay (onclose d) = maxReconnectDelay d"
  "reconnectDelay (onclose d) = reconnectDelay d" "timers (onclose d) = timers d @ [reconnectDelay d]"
  by (simp_all add: onclose_def scheduleReconnect_def)

lemma delays_after_close:
  assumes "maxReconnectDelay d = 30000" "reconnectDelay d = 1000"
  shows "timers ((failed_attempt ^^ n) (onclose d)) = timers d @ map backoff_delay [0..<Suc n]"
proof -
  have b: "reconnectDelay (onclose d) = backoff_delay 0"
    using assms by (simp add: onclose_fields backoff_delay_def)
  have "timers ((failed_attempt ^^ n) (onclose d))
      = timers (onclose d) @ map (\<lambda>k. backoff_delay (0 + k)) [1..<Suc n]"
    using failed_attempts_state [of "onclose d" 0 n] assms b by (simp add: onclose_fields)
  also have "\<dots> = timers d @ (backoff_delay 0 # map backoff_delay [1..<Suc n])"
    using assms by (simp add: onclose_fields backoff_delay_def)
  also have "backoff_delay 0 # map backoff_delay [1..<Suc n] = map backoff_delay [0..<Suc n]"
    by (simp add: upt_rec [of 0] del: upt_Suc)
  finally show ?thesis .
qed

lemma successful_attempt_fields:
  "maxReconnectDelay (successful_attempt d) = maxReconnectDelay d"
  "reconnectDelay (successful_attempt d) = 1000"
  "timers (successful_attempt d) = timers d"
  by (simp_all add: successful_attempt_def onopen_def reconnect_callback_def connect_def Let_def)

lemma no_reconnect_without_socket:
  "reconnect_callback created (new_Dashboard False) = new_Dashboard False"
  by (simp add: reconnect_callback_def new_Dashboard_def connect_def scheduleReconnect_def
      constructor_state_def)

text \<open>
  C7. On a new dashboard whose first connection closes, the reconnect attempts are
  scheduled with the delays \<open>min(1000 * 2^(n - 1), 30000)\<close> for \<open>n = 1, 2, 3, \<dots>\<close> as long as
  they fail, the first three being 1000, 2000 and 4000; after a socket has opened, at any
  point, the next close schedules a reconnect after 1000, and the sequence starts again.
\<close>

theorem backoff_sequence:
  "timers ((failed_attempt ^^ n) (onclose (new_Dashboard True))) = map backoff_delay [0..<Suc n]
   \<and> timers ((failed_attempt ^^ 2) (onclose (new_Dashboard True))) = [1000, 2000, 4000]
   \<and> timers (onclose (onopen d)) = timers d @ [1000]
   \<and> timers ((failed_attempt ^^ n)
        (onclose (successful_attempt ((failed_attempt ^^ m) (onclose (new_Dashboard True))))))
       = map backoff_delay [0..<Suc m] @ map backoff_delay [0..<Suc n]"
proof -
  let ?d0 = "new_Dashboard True"
  have f: "maxReconnectDelay ?d0 = 30000" "reconnectDelay ?d0 = 1000" "timers ?d0 = []"
    by (simp_all add: new_Dashboard_def connect_def constructor_state_def)
  have s: "timers ((failed_attempt ^^ k) (onclose ?d0)) = map backoff_delay [0..<Suc k]" for k
    using delays_after_close [of ?d0 k] f by simp
  have three: "map backoff_delay [0..<Suc 2] = [1000, 2000, 4000]"
    by (simp add: backoff_delay_def upt_rec)
  let ?dm = "(failed_attempt ^^ m) (onclose ?d0)"
  have mx: "maxReconnectDelay ?dm = 30000"
    using failed_attempts_state [of "onclose ?d0" 0 m] f
    by (simp add: onclose_fields backoff_delay_def)
  have r: "timers ((failed_attempt ^^ n) (onclose (successful_attempt ?dm)))
      = map backoff_delay [0..<Suc m] @ map backoff_delay [0..<Suc n]"
    using delays_after_close [of "successful_attempt ?dm" n] mx s [of m]
    by (simp add: successful_attempt_fields)
  have p: "timers (onclose (onopen d)) = timers d @ [1000]"
    by (simp add: onopen_def onclose_def scheduleReconnect_def)
  show ?thesis
    using s [of n] s [of 2] three r p by simp
qed

section \<open>Properties of \<^verbatim>\<open>hexFractionToDecimal\<close>\<close>

subsection \<open>The digit loop\<close>

lemma BigInt_toString_digit: "0 \<le> n \<Longrightarrow> n < 10 \<Longrightarrow> BigInt_toString n = [digit_char (nat n)]"
  by (subst BigInt_toString.simps) simp

lemma times10_split:
  fixes a den :: int
  shows "a * 10 = den * (10 * (a div den)) + (a mod den) * 10"
proof -
  have "a * 10 = (den * (a div den) + a mod den) * 10" by (simp only: mult_div_mod_eq)
  also have "\<dots> = den * (10 * (a div den)) + (a mod den) * 10"
    by (simp only: ring_distribs ac_simps)
  finally show ?thesis .
qed

lemma times10_div:
  fixes a den :: int
  assumes "0 < den"
  shows "(a * 10) div den = 10 * (a div den) + ((a mod den) * 10) div den"
proof -
  have "(den * (10 * (a div den)) + (a mod den) * 10) div den
      = 10 * (a div den) + ((a mod den) * 10) div den"
    using assms by (simp only: div_mult_self4 [of den])
  then show ?thesis by (simp only: times10_split [symmetric])
qed

lemma next_digit_bounds:
  fixes r den :: int
  assumes "0 < den" "0 \<le> r" "r < den"
  shows "0 \<le> (r * 10) div den" "(r * 10) div den < 10"
proof -
  show "0 \<le> (r * 10) div den" using assms by (simp add: pos_imp_zdiv_nonneg_iff)
  have e: "den * ((r * 10) div den) + (r * 10) mod den = r * 10"
    by (rule mult_div_mod_eq)
  have m: "0 \<le> (r * 10) mod den" using assms(1) by simp
  have "den * ((r * 10) div den) \<le> r * 10" using e m by linarith
  also have "r * 10 < den * 10" using assms by simp
  finally have "den * ((r * 10) div den) < den * 10" .
  then show "(r * 10) div den < 10"
    using assms(1) by (simp only: mult_less_cancel_left_pos)
qed

lemma mod10_digit:
  fixes q d :: int
  assumes "0 \<le> d" "d < 10"
  shows "(10 * q + d) mod 10 = d"
  using assms by presburger

lemma digit_step:
  fixes n den :: int
  assumes "0 < den"
  shows "((n * 10 ^ j) mod den * 10) div den = (n * 10 ^ Suc j div den) mod 10"
    and "((n * 10 ^ j) mod den * 10) mod den = (n * 10 ^ Suc j) mod den"
proof -
  let ?a = "n * 10 ^ j"
  let ?r = "?a mod den"
  have r: "0 \<le> ?r" "?r < den" using assms by simp_all
  note b = next_digit_bounds [OF assms r]
  have s: "n * 10 ^ Suc j = ?a * 10" by simp
  have "(n * 10 ^ Suc j div den) mod 10 = (10 * (?a div den) + (?r * 10) div den) mod 10"
    by (simp only: s times10_div [OF assms, of "n * 10 ^ j"])
  also have "\<dots> = (?r * 10) div den"
    using b by (rule mod10_digit)
  finally show "(?r * 10) div den = (n * 10 ^ Suc j div den) mod 10" by (rule sym)
  show "(?r * 10) mod den = (n * 10 ^ Suc j) mod den"
    by (simp only: s mod_mult_left_eq)
qed

lemma digit_loop_emit:
  fixes n den :: int
  assumes "0 < den"
  shows "digit_loop k ((n * 10 ^ i) mod den) den res
     = res @ emit (\<lambda>j. digit_char (nat ((n * 10 ^ j div den) mod 10)))
                 (\<lambda>j. (n * 10 ^ j) mod den = 0) [Suc i..<Suc i + k]"
proof (induction k arbitrary: i res)
  case 0
  show ?case by simp
next
  case (Suc k)
  let ?dig = "(n * 10 ^ Suc i div den) mod 10"
  have dig: "0 \<le> ?dig" "?dig < 10" by simp_all
  have u: "[Suc i..<Suc i + Suc k] = Suc i # [Suc (Suc i)..<Suc (Suc i) + k]"
    by (simp add: upt_rec)
  show ?case
    unfolding digit_loop.simps Let_def digit_step [OF assms] u emit.simps
      BigInt_toString_digit [OF dig] Suc.IH [of "Suc i"]
    by simp
qed

lemma find_Some_mem: "find P xs = Some x \<Longrightarrow> x \<in> set xs"
  by (induction xs) (auto split: if_splits)

lemma emit_upt:
  "emit dc P [a..<a + k]
     = map dc [a..<a + (case find P [a..<a + k] of Some j \<Rightarrow> Suc j - a | None \<Rightarrow> k)]"
proof (induction k arbitrary: a)
  case 0
  show ?case by simp
next
  case (Suc k)
  have u: "[a..<a + Suc k] = a # [Suc a..<Suc a + k]"
    by (simp add: upt_rec)
  show ?case
  proof (cases "P a")
    case True
    then show ?thesis unfolding u by simp
  next
    case False
    show ?thesis
    proof (cases "find P [Suc a..<Suc a + k]")
      case None
      then show ?thesis
        unfolding u using False Suc.IH [of "Suc a"] by (simp add: upt_rec [of a])
    next
      case (Some j)
      then have "j \<in> set [Suc a..<Suc a + k]"
        by (rule find_Some_mem)
      then have j: "Suc a \<le> j" by (simp del: upt_Suc)
      then have "[a..<Suc j] = a # [Suc a..<Suc j]" by (simp add: upt_rec [of a])
      moreover have "Suc a + (Suc j - Suc a) = Suc j" "a + (Suc j - a) = Suc j" using j by simp_all
      ultimately show ?thesis
        unfolding u using False Some Suc.IH [of "Suc a"] by simp
    qed
  qed
qed

subsection \<open>Numerator and denominator of a hex-digit string\<close>

lemma parseInt_hex_char:
  assumes "digit_value u = Some v" "v < 16"
  shows "parseInt_string [u] 16 = Finite (int v)"
proof -
  have "48 \<le> (of_char u :: nat)"
    using assms(1) by (auto simp: digit_value_def Let_def split: if_splits)
  then have n: "\<not> StrWhiteSpaceChar u" "u \<noteq> CHR ''-''" "u \<noteq> CHR ''+''"
    using not_space_or_sign by blast+
  have r: "radix_digit 16 u" using assms by (simp add: radix_digit_def)
  show ?thesis
    using n r assms(1) by (simp add: parseInt_string_def digits_value_def)
qed

lemma digit_value_upper:
  assumes "digit_value c = Some v" "v < 16"
  shows "digit_value (if 97 \<le> (of_char c :: nat) \<and> (of_char c :: nat) \<le> 122
                      then char_of ((of_char c :: nat) - 32) else c) = Some v"
proof (cases "97 \<le> (of_char c :: nat) \<and> (of_char c :: nat) \<le> 122")
  case True
  define n :: nat where "n = of_char c"
  have v: "v = n - 87" using assms(1) True by (auto simp: digit_value_def Let_def n_def)
  with assms(2) True have b: "97 \<le> n" "n \<le> 102" by (simp_all add: n_def)
  then have "(of_char (char_of (n - 32)) :: nat) = n - 32" by simp
  then have "digit_value (char_of (n - 32)) = Some (n - 32 - 55)"
    using b by (auto simp add: digit_value_def Let_def)
  also have "n - 32 - 55 = v" using v b by simp
  finally show ?thesis using True by (simp add: n_def)
next
  case False
  then show ?thesis using assms by auto
qed

lemma numerator_loop_hex:
  "is_hex_string h \<Longrightarrow>
   numerator_loop (toUpperCase h) (int a)
     = Inr (int (foldl (\<lambda>a c. 16 * a + (case digit_value c of Some v \<Rightarrow> v | None \<Rightarrow> 0)) a h))"
proof (induction h arbitrary: a)
  case Nil
  show ?case by (simp add: toUpperCase_def)
next
  case (Cons c h)
  then obtain v where v: "digit_value c = Some v" "v < 16"
    by (auto simp: is_hex_string_def radix_digit_def split: option.splits)
  have h: "is_hex_string h" using Cons.prems by (simp add: is_hex_string_def)
  have p: "parseInt_string [if 97 \<le> (of_char c :: nat) \<and> (of_char c :: nat) \<le> 122
                      then char_of ((of_char c :: nat) - 32) else c] 16 = Finite (int v)"
    using digit_value_upper [OF v] v(2) by (rule parseInt_hex_char)
  have "numerator_loop (toUpperCase (c # h)) (int a) = numerator_loop (toUpperCase h) (int (16 * a + v))"
    unfolding toUpperCase_def list.map numerator_loop.simps p by (simp add: mult.commute)
  then show ?case using Cons.IH [OF h, of "16 * a + v"] v(1) by simp
qed

lemma denominator_loop_eq: "denominator_loop hs den = den * 16 ^ length hs"
  by (induction hs arbitrary: den) simp_all

lemma foldl_hex_bound:
  "is_hex_string h \<Longrightarrow>
   foldl (\<lambda>a c. 16 * a + (case digit_value c of Some v \<Rightarrow> v | None \<Rightarrow> 0)) a h
     < (a + 1) * 16 ^ length h"
proof (induction h arbitrary: a)
  case Nil
  show ?case by simp
next
  case (Cons c h)
  then obtain v where v: "digit_value c = Some v" "v < 16"
    by (auto simp: is_hex_string_def radix_digit_def split: option.splits)
  have h: "is_hex_string h" using Cons.prems by (simp add: is_hex_string_def)
  have "foldl (\<lambda>a c. 16 * a + (case digit_value c of Some v \<Rightarrow> v | None \<Rightarrow> 0)) (16 * a + v) h
      < (16 * a + v + 1) * 16 ^ length h"
    by (rule Cons.IH [OF h])
  also have "\<dots> \<le> (16 * a + 16) * 16 ^ length h"
    using v(2) by (intro mult_right_mono) simp_all
  also have "\<dots> = (a + 1) * 16 ^ length (c # h)" by (simp add: algebra_simps)
  finally show ?case using v(1) by simp
qed

lemma hex_value_bound: "is_hex_string h \<Longrightarrow> hex_value h < 16 ^ length h"
  using foldl_hex_bound [of h 0] by (simp add: hex_value_def)

lemma frac_times_pow:
  "frac_value h * 10 ^ j = of_int (int (hex_value h) * 10 ^ j) / of_int (16 ^ length h)"
  by (simp add: frac_value_def)

lemma floor_frac:
  "\<lfloor>frac_value h * 10 ^ j\<rfloor> = (int (hex_value h) * 10 ^ j) div 16 ^ length h"
  unfolding frac_times_pow by (rule floor_divide_of_int_eq)

lemma of_int_div_exact:
  fixes a b :: int
  assumes "b \<noteq> 0"
  shows "(of_int (a div b) :: rat) = of_int a / of_int b \<longleftrightarrow> a mod b = 0"
proof
  assume "(of_int (a div b) :: rat) = of_int a / of_int b"
  then have "(of_int (a div b) :: rat) * of_int b = of_int a"
    using assms by (simp add: field_simps)
  then have "(of_int (a div b * b) :: rat) = of_int a" by simp
  then have "a div b * b = a" by (simp only: of_int_eq_iff)
  then have "b dvd a" by (metis dvd_triv_right)
  then show "a mod b = 0" by simp
next
  assume "a mod b = 0"
  then have "b dvd a" by (simp add: dvd_eq_mod_eq_0)
  then show "(of_int (a div b) :: rat) = of_int a / of_int b"
    by (rule of_int_div [where ?'a = rat] ) 
qed

lemma exact_at_frac:
  "exact_at (frac_value h) j \<longleftrightarrow> (int (hex_value h) * 10 ^ j) mod 16 ^ length h = 0"
  unfolding exact_at_def floor_frac
  unfolding frac_times_pow
  by (rule of_int_div_exact) simp

subsection \<open>The result is the truncated expansion\<close>

lemma digit_char_5: "digit_char 5 = CHR ''5''"
  unfolding digit_char_def by code_simp

lemma digits_emitted_0: "digits_emitted q 0 = 0"
  by (simp add: digits_emitted_def)

lemma digit_loop_expansion:
  assumes "is_hex_string h"
  shows "digit_loop k (int (hex_value h)) (16 ^ length h) res
     = res @ truncated_expansion (frac_value h) (digits_emitted (frac_value h) k)"
proof -
  let ?n = "int (hex_value h)" and ?den = "(16 :: int) ^ length h" and ?q = "frac_value h"
  have den: "0 < ?den" by simp
  have "?n < ?den" using hex_value_bound [OF assms] by (metis of_nat_less_iff of_nat_numeral of_nat_power)
  then have n: "(?n * 10 ^ 0) mod ?den = ?n" by simp
  have P: "(\<lambda>j. (?n * 10 ^ j) mod ?den = 0) = exact_at ?q"
    by (rule ext) (simp only: exact_at_frac)
  have dc: "(\<lambda>j. digit_char (nat ((?n * 10 ^ j div ?den) mod 10)))
      = (\<lambda>j. digit_char (decimal_digit ?q j))"
    by (rule ext) (simp only: decimal_digit_def floor_frac)
  have "digit_loop k ?n ?den res = digit_loop k ((?n * 10 ^ 0) mod ?den) ?den res"
    by (simp only: n)
  also have "\<dots> = res @ emit (\<lambda>j. digit_char (decimal_digit ?q j)) (exact_at ?q) [Suc 0..<Suc 0 + k]"
    by (simp only: digit_loop_emit [OF den] P dc)
  also have "emit (\<lambda>j. digit_char (decimal_digit ?q j)) (exact_at ?q) [Suc 0..<Suc 0 + k]
      = map (\<lambda>j. digit_char (decimal_digit ?q j))
          [Suc 0..<Suc 0 + (case find (exact_at ?q) [Suc 0..<Suc 0 + k] of Some j \<Rightarrow> Suc j - Suc 0 | None \<Rightarrow> k)]"
    by (rule emit_upt)
  also have "\<dots> = truncated_expansion ?q (digits_emitted ?q k)"
    by (simp add: truncated_expansion_def digits_emitted_def split: option.splits)
  finally show ?thesis .
qed

lemma length_toUpperCase: "length (toUpperCase h) = length h"
  by (simp add: toUpperCase_def)

lemma hexFractionToDecimal_hex:
  assumes "is_hex_string h" "1 \<le> M"
  shows "hexFractionToDecimal h M
     = Inr (''3.'' @ truncated_expansion (frac_value h)
                       (digits_emitted (frac_value h) (min (length h) (nat M))))"
proof (cases "h = []")
  case True
  then show ?thesis
    by (simp add: hexFractionToDecimal_def digits_emitted_0 truncated_expansion_def)
next
  case False
  have num: "numerator_loop (toUpperCase h) 0 = Inr (int (hex_value h))"
    using numerator_loop_hex [OF assms(1), of 0] by (simp add: hex_value_def)
  have k: "nat (min (int (length h)) M) = min (length h) (nat M)"
    using assms(2) by (simp add: min_def) linarith
  show ?thesis
    using False
    by (simp add: hexFractionToDecimal_def Let_def num denominator_loop_eq length_toUpperCase k
        digit_loop_expansion [OF assms(1)] del: digit_loop.simps)
qed

lemma is_hex_string_8: "is_hex_string ''8''"
  by (simp add: is_hex_string_def radix_digit_def digit_value_def)

lemma expansion_8: "truncated_expansion (frac_value ''8'') (digits_emitted (frac_value ''8'') 1) = ''5''"
  by (simp add: truncated_expansion_def frac_value_def digits_emitted_def exact_at_def
      hex_value_def digit_value_def decimal_digit_def digit_char_5)

subsection \<open>Where the expansion stops\<close>

text \<open>
  The number of digits written is at most the number asked for, no earlier digit ends
  the expansion, and fewer digits are written only where the expansion ends.
\<close>

lemma find_upt_Some:
  assumes "find P [a..<c] = Some j"
  shows "a \<le> j \<and> j < c \<and> P j \<and> (\<forall>i. a \<le> i \<and> i < j \<longrightarrow> \<not> P i)"
proof -
  from assms obtain n where n: "n < length [a..<c]" "P ([a..<c] ! n)" "j = [a..<c] ! n"
    "\<forall>m < n. \<not> P ([a..<c] ! m)"
    unfolding find_Some_iff by blast
  then have j: "j = a + n" "n < c - a" by simp_all
  have "\<not> P i" if "a \<le> i" "i < j" for i
  proof -
    from that j have "i - a < n" "[a..<c] ! (i - a) = i" by simp_all
    with n(4) show ?thesis by metis
  qed
  with n j show ?thesis by auto
qed

lemma find_upt_None:
  assumes "find P [a..<c] = None" "a \<le> i" "i < c"
  shows "\<not> P i"
  using assms by (auto simp: find_None_iff)

lemma digits_emitted_cases:
  obtains (stops) j where "find (exact_at q) [1..<Suc b] = Some j" "digits_emitted q b = j"
    | (runs) "find (exact_at q) [1..<Suc b] = None" "digits_emitted q b = b"
  unfolding digits_emitted_def by (cases "find (exact_at q) [1..<Suc b]") simp_all

lemma digits_emitted_le: "digits_emitted q b \<le> b"
proof (cases rule: digits_emitted_cases [of q b])
  case (stops j)
  from find_upt_Some [OF stops(1)] have "j < Suc b" by blast
  with stops(2) show ?thesis by simp
next
  case runs
  then show ?thesis by simp
qed

lemma digits_emitted_not_before:
  assumes "1 \<le> j" "j < digits_emitted q b"
  shows "\<not> exact_at q j"
proof (cases rule: digits_emitted_cases [of q b])
  case (stops k)
  from find_upt_Some [OF stops(1)] have "\<forall>i. 1 \<le> i \<and> i < k \<longrightarrow> \<not> exact_at q i" by blast
  with assms stops(2) show ?thesis by simp
next
  case runs
  with assms have "j < Suc b" by simp
  with find_upt_None [OF runs(1) assms(1)] show ?thesis by blast
qed

lemma digits_emitted_early:
  assumes "digits_emitted q b < b"
  shows "exact_at q (digits_emitted q b)"
proof (cases rule: digits_emitted_cases [of q b])
  case (stops k)
  from find_upt_Some [OF stops(1)] have "exact_at q k" by blast
  with stops(2) show ?thesis by simp
next
  case runs
  with assms show ?thesis by simp
qed

lemma digits_emitted_pos:
  assumes "1 \<le> b"
  shows "1 \<le> digits_emitted q b"
proof (cases rule: digits_emitted_cases [of q b])
  case (stops k)
  from find_upt_Some [OF stops(1)] have "1 \<le> k" by blast
  with stops(2) show ?thesis by simp
next
  case runs
  with assms show ?thesis by simp
qed

subsection \<open>Exact truncation\<close>

text \<open>
  C2. For every hex-digit string \<open>h\<close> of length \<open>L\<close> and every maximum digit count
  \<open>M \<ge> 1\<close>, \<^verbatim>\<open>hexFractionToDecimal\<close> returns \<^verbatim>\<open>"3."\<close> for the empty string, and
  otherwise \<^verbatim>\<open>"3."\<close> followed by the decimal expansion of \<open>h / 16^L\<close> cut after
  \<open>min(L, M)\<close> digits, or after the first digit at which the remainder is zero if that
  comes earlier; for \<^verbatim>\<open>"8"\<close> it returns \<^verbatim>\<open>"3.5"\<close>.
\<close>

theorem exact_truncation:
  assumes "is_hex_string h" "1 \<le> M"
  shows "hexFractionToDecimal [] M = Inr ''3.''
    \<and> hexFractionToDecimal h M
        = Inr (''3.'' @ truncated_expansion (frac_value h)
                          (digits_emitted (frac_value h) (min (length h) (nat M))))
    \<and> hexFractionToDecimal ''8'' M = Inr ''3.5''"
proof -
  have m: "min (length ''8'') (nat M) = 1" using assms(2) by simp
  have "hexFractionToDecimal ''8'' M = Inr ''3.5''"
    using hexFractionToDecimal_hex [OF is_hex_string_8 assms(2)]
    by (simp only: m expansion_8) simp
  then show ?thesis
    using hexFractionToDecimal_hex [OF assms] by (simp add: hexFractionToDecimal_def)
qed

theorem exact_truncation_witness:
  "is_hex_string ''243f'' \<and> (1::int) \<le> 1000
   \<and> hexFractionToDecimal [] 1000 = Inr ''3.''
   \<and> hexFractionToDecimal ''243f'' 1000
       = Inr (''3.'' @ truncated_expansion (frac_value ''243f'')
                         (digits_emitted (frac_value ''243f'') (min (length ''243f'') (nat 1000))))
   \<and> hexFractionToDecimal ''8'' 1000 = Inr ''3.5''"
proof -
  have h: "is_hex_string ''243f''"
    by (simp add: is_hex_string_def radix_digit_def digit_value_def)
  have M: "(1::int) \<le> 1000" by simp
  from exact_truncation [OF h M] h M show ?thesis by blast
qed

end
